theory Spec2Isabelle
  imports Complex_Main
begin

section \<open>Python values\<close>

text \<open>
  A Python \<open>str\<close> is a sequence of Unicode code points, so it is modelled as a list of
  natural numbers (HOL's \<open>char\<close> has only 256 values, and the normalizer tells the
  code points above 127 from those below). \<open>ustr\<close> turns an ASCII literal of the
  source into such a list.
\<close>

type_synonym ustring = "nat list"

definition ustr :: "string \<Rightarrow> ustring" where
  "ustr s = map of_char s"

text \<open>
  An exception object: every failure of a library call that the source guards with
  \<open>except Exception\<close> is an instance of \<open>Exception\<close>; \<open>exn_class\<close> is its class
  name and \<open>exn_str\<close> the text \<open>str(e)\<close> that formatting it gives.
\<close>

datatype exn = Exception (exn_class: string) (exn_str: ustring)

text \<open>
  \<open>str.isspace\<close> on one code point; the regular expression classes \<open>\s\<close> and \<open>\S\<close>
  and \<open>str.strip()\<close> use the same test on \<open>str\<close> patterns.
\<close>

definition isspace :: "nat \<Rightarrow> bool" where
  "isspace c \<longleftrightarrow>
     (9 \<le> c \<and> c \<le> 13) \<or> (28 \<le> c \<and> c \<le> 32) \<or> c = 0x85 \<or> c = 0xA0 \<or> c = 0x1680 \<or>
     (0x2000 \<le> c \<and> c \<le> 0x200A) \<or> c = 0x2028 \<or> c = 0x2029 \<or> c = 0x202F \<or>
     c = 0x205F \<or> c = 0x3000"

text \<open>
  \<open>str.lower()\<close>. On ASCII it maps \<open>A\<close>..\<open>Z\<close> to \<open>a\<close>..\<open>z\<close> and keeps every other code
  point. Above 127 it follows the case mapping of the Unicode database, which is not part
  of the source: it is the parameter \<open>lw\<close>, giving for one code point the code points
  that replace it (U+0130 gives two). CPython chooses between the two lower-case forms
  of the capital sigma U+03A3 by its neighbours; both forms are above 127 and neither is
  whitespace, and nothing in the source tells them apart.
\<close>

definition lower_cp :: "(nat \<Rightarrow> ustring) \<Rightarrow> nat \<Rightarrow> ustring" where
  "lower_cp lw c = (if 65 \<le> c \<and> c \<le> 90 then [c + 32] else if c < 128 then [c] else lw c)"

definition py_lower :: "(nat \<Rightarrow> ustring) \<Rightarrow> ustring \<Rightarrow> ustring" where
  "py_lower lw s = concat (map (lower_cp lw) s)"

definition endswith :: "ustring \<Rightarrow> ustring \<Rightarrow> bool" where
  "endswith s suf \<longleftrightarrow> length suf \<le> length s \<and> drop (length s - length suf) s = suf"

text \<open>\<open>str.strip()\<close> with no argument: whitespace is removed at both ends.\<close>

definition strip :: "ustring \<Rightarrow> ustring" where
  "strip s = rev (dropWhile isspace (rev (dropWhile isspace s)))"

text \<open>
  A sample of the Unicode case mapping above 127, for the concrete evaluations below:
  the upper-case letters of Latin-1 (U+00C0..U+00DE without U+00D7), U+0130 and the
  Kelvin sign U+212A; every other code point is kept, which is what Unicode does for the
  caseless code points used below (U+00AD, U+2013, U+2022).
\<close>

definition unicode_lower_sample :: "nat \<Rightarrow> ustring" where
  "unicode_lower_sample c =
     (if 0xC0 \<le> c \<and> c \<le> 0xDE \<and> c \<noteq> 0xD7 then [c + 32]
      else if c = 0x130 then [0x69, 0x307]
      else if c = 0x212A then [0x6B]
      else [c])"


section \<open>Text normalization (\<open>normalize_text\<close>, lines 59--68)\<close>

text \<open>
  \<open>url_at s\<close>: the pattern \<open>http\S+|www\.\S+\<close> matches at the start of \<open>s\<close>, that is
  \<open>s\<close> starts with \<open>http\<close> or \<open>www.\<close> followed by at least one non-whitespace code
  point.
\<close>

definition url_at :: "ustring \<Rightarrow> bool" where
  "url_at s \<longleftrightarrow>
     5 \<le> length s \<and> (take 4 s = ustr ''http'' \<or> take 4 s = ustr ''www.'') \<and>
     \<not> isspace (s ! 4)"

text \<open>
  \<open>re.sub(r'http\S+|www\.\S+', '', text)\<close>: scanning from the left, a match is the four
  literal code points and the longest run of non-whitespace after them (\<open>\S+\<close> is
  greedy and nothing follows it); the match is deleted and the scan goes on behind it.
\<close>

function strip_urls :: "ustring \<Rightarrow> ustring" where
  "strip_urls [] = []"
| "strip_urls (c # cs) =
     (if url_at (c # cs)
      then strip_urls (dropWhile (\<lambda>x. \<not> isspace x) (drop 4 (c # cs)))
      else c # strip_urls cs)"
  by pat_completeness auto
termination
  by (relation "measure length")
     (auto simp: less_Suc_eq_le intro: order_trans [OF length_dropWhile_le])

text \<open>
  \<open>re.sub(r'[...]+', ' ', text)\<close> for a character class \<open>P\<close>: every maximal run of
  code points in \<open>P\<close> becomes one space.
\<close>

function sub_runs :: "(nat \<Rightarrow> bool) \<Rightarrow> ustring \<Rightarrow> ustring" where
  "sub_runs P [] = []"
| "sub_runs P (c # cs) =
     (if P c then 32 # sub_runs P (dropWhile P cs) else c # sub_runs P cs)"
  by pat_completeness auto
termination
  by (relation "measure (\<lambda>(P, s). length s)")
     (auto simp: less_Suc_eq_le length_dropWhile_le)

text \<open>The character class of line 65: hyphen, asterisk, U+2022 (bullet), U+2013 (en dash),
  U+2014 (em dash), colon.\<close>

definition is_separator :: "nat \<Rightarrow> bool" where
  "is_separator c \<longleftrightarrow> c = 0x2D \<or> c = 0x2A \<or> c = 0x2022 \<or> c = 0x2013 \<or> c = 0x2014 \<or> c = 0x3A"

text \<open>
  The argument is \<open>None\<close> for a value that is not a \<open>str\<close> (line 60). The steps are
  those of lines 62--67, in the order of the source.
\<close>

definition normalize_text :: "(nat \<Rightarrow> ustring) \<Rightarrow> ustring option \<Rightarrow> ustring" where
  "normalize_text lw v =
     (case v of
        None \<Rightarrow> []
      | Some text0 \<Rightarrow>
          let text1 = py_lower lw text0;
              text2 = strip_urls text1;
              text3 = filter (\<lambda>c. c < 128) text2;
              text4 = map (\<lambda>c. if is_separator c then 32 else c) text3;
              text5 = sub_runs (\<lambda>c. c = 10 \<or> c = 13) text4;
              text6 = strip (sub_runs isspace text5)
          in text6)"

text \<open>\<open>has_url s\<close>: the URL pattern matches somewhere in \<open>s\<close>.\<close>

fun has_url :: "ustring \<Rightarrow> bool" where
  "has_url [] = False"
| "has_url (c # cs) = (url_at (c # cs) \<or> has_url cs)"

text \<open>No two spaces in a row.\<close>

fun single_spaced :: "ustring \<Rightarrow> bool" where
  "single_spaced (a # b # cs) = (\<not> (a = 32 \<and> b = 32) \<and> single_spaced (b # cs))"
| "single_spaced _ = True"


section \<open>Confidence tiers (\<open>get_confidence_tier\<close>, lines 83--91)\<close>

text \<open>
  The score is a Python float; the comparisons with 80, 60 and 40 are those of the real
  numbers the floats denote.
\<close>

record tier =
  label :: string
  style :: string

definition get_confidence_tier :: "real \<Rightarrow> tier" where
  "get_confidence_tier score =
     (if score \<ge> 80 then \<lparr>label = ''Tier 1 (Excellent Match)'', style = ''bg-success''\<rparr>
      else if score \<ge> 60 then \<lparr>label = ''Tier 2 (Strong Fit)'', style = ''bg-primary''\<rparr>
      else if score \<ge> 40 then \<lparr>label = ''Tier 3 (Average Fit)'', style = ''bg-warning text-dark''\<rparr>
      else \<lparr>label = ''Tier 4 (Low Fit)'', style = ''bg-danger''\<rparr>)"


section \<open>The outside world\<close>

text \<open>
  The libraries and the file system are not part of the source. They are operations of a
  world \<open>w\<close> over a file-system state \<open>'fs\<close>, each with the outcomes the source can
  observe: a value or a raised exception.
  \<^item> \<open>unicode_lower\<close>: the case mapping of \<open>str.lower()\<close> above 127.
  \<^item> \<open>pdf_open\<close>: \<open>pdfplumber.open(path)\<close> and \<open>pdf.pages\<close>; each page is the outcome of
    its \<open>extract_text()\<close>, which raises, returns \<open>None\<close> or returns a string.
  \<^item> \<open>docx_process\<close>: \<open>docx2txt.process(path)\<close>.
  \<^item> \<open>read_utf8\<close>: \<open>open(path, 'r', encoding='utf-8')\<close> and \<open>file.read()\<close>.
  \<^item> \<open>save\<close>: \<open>FileStorage.save(path)\<close>, which changes the file system and may raise.
  \<^item> \<open>english_stop_words\<close>: \<open>sk_text.ENGLISH_STOP_WORDS\<close>.
  \<^item> \<open>tfidf_cosine\<close>: \<open>TfidfVectorizer(stop_words=...).fit_transform(all_docs)\<close> followed
    by \<open>cosine_similarity(vectors[0:1], vectors[1:]).flatten()\<close>.
  \<^item> \<open>round_score\<close>: the floating-point computation \<open>round(sim * 100, 2)\<close>.
  \<^item> \<open>console_print\<close>: \<open>print(line)\<close> on standard output, which raises when the line
    cannot be written (\<open>UnicodeEncodeError\<close> for a code point that the encoding of
    standard output does not have).
  Floats are read as the real numbers they denote, which is all their comparison uses.
  The lines that the three readers print depend on the file path and on the exception,
  and their \<open>print\<close> is modelled; the line printed at line 103 is a constant of the
  source and is left out.
\<close>

record 'fs world =
  unicode_lower :: "nat \<Rightarrow> ustring"
  pdf_open :: "'fs \<Rightarrow> ustring \<Rightarrow> exn + (exn + ustring option) list"
  docx_process :: "'fs \<Rightarrow> ustring \<Rightarrow> exn + ustring"
  read_utf8 :: "'fs \<Rightarrow> ustring \<Rightarrow> exn + ustring"
  save :: "nat list \<Rightarrow> ustring \<Rightarrow> 'fs \<Rightarrow> exn option \<times> 'fs"
  english_stop_words :: "ustring set"
  tfidf_cosine :: "ustring set \<Rightarrow> ustring list \<Rightarrow> exn + real list"
  round_score :: "real \<Rightarrow> real"
  console_print :: "ustring \<Rightarrow> exn option"


section \<open>Text extraction (lines 16--55)\<close>

text \<open>
  \<open>try: body  except Exception as e: handler\<close>. An exception raised inside the handler
  leaves the statement.
\<close>

definition try_except :: "exn + 'a \<Rightarrow> (exn \<Rightarrow> exn + 'a) \<Rightarrow> exn + 'a" where
  "try_except body handler = (case body of Inl e \<Rightarrow> handler e | Inr v \<Rightarrow> Inr v)"

text \<open>
  The loop of lines 20--23 over the pages, with the text collected so far: a page whose
  \<open>extract_text()\<close> raises ends the loop with the exception, a page with no text
  (\<open>None\<close> or the empty string) adds nothing.
\<close>

fun pdf_pages_text :: "(exn + ustring option) list \<Rightarrow> ustring \<Rightarrow> exn + ustring" where
  "pdf_pages_text [] text = Inr text"
| "pdf_pages_text (page # pages) text =
     (case page of
        Inl e \<Rightarrow> Inl e
      | Inr page_text \<Rightarrow>
          (case page_text of
             None \<Rightarrow> pdf_pages_text pages text
           | Some t \<Rightarrow>
               if t \<noteq> [] then pdf_pages_text pages (text @ t @ [10])
               else pdf_pages_text pages text))"

text \<open>
  The handlers of lines 25--27, 33--35 and 42--44 print a line made of the cross mark
  U+274C, a fixed text, the file path and the text of the exception, and then return the
  empty string; when the \<open>print\<close> raises, its exception leaves the function.
\<close>

definition extract_text_from_pdf :: "'fs world \<Rightarrow> 'fs \<Rightarrow> ustring \<Rightarrow> exn + ustring" where
  "extract_text_from_pdf w fs file_path =
     try_except
       (case pdf_open w fs file_path of
          Inl e \<Rightarrow> Inl e
        | Inr pages \<Rightarrow> pdf_pages_text pages [])
       (\<lambda>e. case console_print w
                   ([0x274C] @ ustr '' Error reading PDF '' @ file_path @ ustr '': '' @ exn_str e) of
               Some e' \<Rightarrow> Inl e'
             | None \<Rightarrow> Inr [])"

definition extract_text_from_docx :: "'fs world \<Rightarrow> 'fs \<Rightarrow> ustring \<Rightarrow> exn + ustring" where
  "extract_text_from_docx w fs file_path =
     try_except (docx_process w fs file_path)
       (\<lambda>e. case console_print w
                   ([0x274C] @ ustr '' Error reading DOCX '' @ file_path @ ustr '': '' @ exn_str e) of
               Some e' \<Rightarrow> Inl e'
             | None \<Rightarrow> Inr [])"

definition extract_text_from_txt :: "'fs world \<Rightarrow> 'fs \<Rightarrow> ustring \<Rightarrow> exn + ustring" where
  "extract_text_from_txt w fs file_path =
     try_except (read_utf8 w fs file_path)
       (\<lambda>e. case console_print w
                   ([0x274C] @ ustr '' Error reading TXT '' @ file_path @ ustr '': '' @ exn_str e) of
               Some e' \<Rightarrow> Inl e'
             | None \<Rightarrow> Inr [])"

definition extract_text :: "'fs world \<Rightarrow> 'fs \<Rightarrow> ustring \<Rightarrow> exn + ustring" where
  "extract_text w fs file_path =
     (if endswith (py_lower (unicode_lower w) file_path) (ustr ''.pdf'')
      then extract_text_from_pdf w fs file_path
      else if endswith (py_lower (unicode_lower w) file_path) (ustr ''.docx'')
      then extract_text_from_docx w fs file_path
      else if endswith (py_lower (unicode_lower w) file_path) (ustr ''.txt'')
      then extract_text_from_txt w fs file_path
      else Inr [])"


section \<open>The route \<open>matcher\<close> (lines 101--157)\<close>

text \<open>
  An uploaded file: its \<open>filename\<close> (empty when the part carries no file) and its bytes.
\<close>

record upload =
  filename :: ustring
  content :: "nat list"

record match_result =
  name :: ustring
  score :: real
  tier_label :: string
  tier_style :: string

text \<open>
  What the route hands to the template: the error page with its message, or the results
  page with its message, the top results and the chart data (a list of name and score,
  which the source serialises with \<open>json.dumps\<close>).
\<close>

datatype response =
  ErrorPage string
| ResultsPage string "match_result list" "(ustring \<times> real) list"

text \<open>\<open>os.path.join(folder, filename)\<close> for a folder that ends in a slash (POSIX).\<close>

definition path_join :: "ustring \<Rightarrow> ustring \<Rightarrow> ustring" where
  "path_join folder file = (if file \<noteq> [] \<and> hd file = 47 then file else folder @ file)"

text \<open>
  The loop of lines 116--124, with the two lists it appends to and the file system it
  writes to. An exception of \<open>save\<close> or of \<open>extract_text\<close> leaves the loop;
  \<open>extract_text\<close> is called on the file system after the save.
\<close>

fun read_resumes ::
  "'fs world \<Rightarrow> upload list \<Rightarrow> ustring list \<Rightarrow> ustring list \<Rightarrow> 'fs \<Rightarrow>
   (exn + ustring list \<times> ustring list) \<times> 'fs" where
  "read_resumes w [] uploaded_names resumes_text fs = (Inr (uploaded_names, resumes_text), fs)"
| "read_resumes w (resume_file # rest) uploaded_names resumes_text fs =
     (if filename resume_file \<noteq> [] then
        (let file_path = path_join (ustr ''uploads/'') (filename resume_file) in
         case save w (content resume_file) file_path fs of
           (Some e, fs') \<Rightarrow> (Inl e, fs')
         | (None, fs') \<Rightarrow>
             (case extract_text w fs' file_path of
                Inl e \<Rightarrow> (Inl e, fs')
              | Inr extracted \<Rightarrow>
                  read_resumes w rest (uploaded_names @ [filename resume_file])
                    (resumes_text @ [normalize_text (unicode_lower w) (Some extracted)]) fs'))
      else read_resumes w rest uploaded_names resumes_text fs)"

text \<open>
  The loop of lines 137--145 over \<open>enumerate(similarities)\<close>, with the index and the
  list of results so far; \<open>uploaded_names[i]\<close> raises when the index is out of range.
\<close>

fun build_results ::
  "'fs world \<Rightarrow> ustring list \<Rightarrow> nat \<Rightarrow> real list \<Rightarrow> match_result list \<Rightarrow>
   exn + match_result list" where
  "build_results w uploaded_names i [] results = Inr results"
| "build_results w uploaded_names i (sim # sims) results =
     (let sc = round_score w sim;
          tier = get_confidence_tier sc
      in if i < length uploaded_names
         then build_results w uploaded_names (Suc i) sims
                (results @ [\<lparr>name = uploaded_names ! i, score = sc,
                             tier_label = label tier, tier_style = style tier\<rparr>])
         else Inl (Exception ''IndexError'' (ustr ''list index out of range'')))"

text \<open>
  \<open>list.sort(key=..., reverse=True)\<close>: the sort is stable, and with \<open>reverse=True\<close>
  the list is reversed, sorted in ascending order and reversed again, so that elements
  with equal keys keep their order. \<open>sort_key\<close> is HOL's stable insertion sort.
\<close>

definition sort_reverse :: "('a \<Rightarrow> real) \<Rightarrow> 'a list \<Rightarrow> 'a list" where
  "sort_reverse key xs = rev (sort_key key (rev xs))"

text \<open>
  \<open>job_description\<close> is \<open>None\<close> when the form has no such field. The result is the
  response or the exception that leaves the route, and the file system afterwards.
\<close>

definition matcher ::
  "'fs world \<Rightarrow> ustring option \<Rightarrow> upload list \<Rightarrow> 'fs \<Rightarrow> (exn + response) \<times> 'fs" where
  "matcher w job_description resume_files fs =
     (if job_description = None \<or> job_description = Some []
      then (Inr (ErrorPage ''Please paste a job description to begin matching.''), fs)
      else if resume_files = [] \<or> \<not> list_ex (\<lambda>f. filename f \<noteq> []) resume_files
      then (Inr (ErrorPage ''Please upload at least one resume file.''), fs)
      else
        (case read_resumes w resume_files [] [] fs of
           (Inl e, fs') \<Rightarrow> (Inl e, fs')
         | (Inr (uploaded_names, resumes_text), fs') \<Rightarrow>
             (let normalized_jd = normalize_text (unicode_lower w) job_description;
                  custom_words = map ustr [''skills'', ''experience'', ''candidate'', ''job'',
                                           ''responsibilities''];
                  combined_stopwords = english_stop_words w \<union> set custom_words;
                  all_docs = normalized_jd # resumes_text
              in case tfidf_cosine w combined_stopwords all_docs of
                   Inl e \<Rightarrow> (Inl e, fs')
                 | Inr similarities \<Rightarrow>
                     (case build_results w uploaded_names 0 similarities [] of
                        Inl e \<Rightarrow> (Inl e, fs')
                      | Inr results \<Rightarrow>
                          (let sorted_results = sort_reverse score results;
                               chart_data = map (\<lambda>r. (name r, score r)) sorted_results
                           in (Inr (ResultsPage ''Analysis Complete. Top Matches:''
                                      (take 5 sorted_results) chart_data), fs'))))))"


section \<open>A small world for concrete evaluations\<close>

text \<open>
  The file system is the list of the files saved, newest first. A text file decodes when
  all its bytes are below 128; every byte of a PDF file is one page, whose text is that
  byte, and a byte from 128 on is a page that fails; a DOCX file is the byte 80 followed
  by its text. The
  similarity is 1 for a resume equal to the job description, 0 for an empty resume and
  1/2 otherwise: a stand-in with the shape of the library's result, one number per
  resume. Standard output encodes as UTF-8: it writes every line but one that holds a
  surrogate code point (U+D800..U+DFFF), which UTF-8 cannot encode.
\<close>

definition sample_world :: "(ustring \<times> nat list) list world" where
  "sample_world =
     \<lparr>unicode_lower = unicode_lower_sample,
      pdf_open = (\<lambda>fs p. case map_of fs p of
                    None \<Rightarrow> Inl (Exception ''FileNotFoundError'' (ustr ''No such file or directory''))
                  | Some d \<Rightarrow> Inr (map (\<lambda>b. if b < 128 then Inr (Some [b])
                                            else Inl (Exception ''PDFSyntaxError'' (ustr ''No /Root object''))) d)),
      docx_process = (\<lambda>fs p. case map_of fs p of
                        None \<Rightarrow> Inl (Exception ''FileNotFoundError'' (ustr ''No such file or directory''))
                      | Some d \<Rightarrow> if d \<noteq> [] \<and> hd d = 80 then Inr (tl d)
                                 else Inl (Exception ''BadZipFile'' (ustr ''File is not a zip file''))),
      read_utf8 = (\<lambda>fs p. case map_of fs p of
                     None \<Rightarrow> Inl (Exception ''FileNotFoundError'' (ustr ''No such file or directory''))
                   | Some d \<Rightarrow> if list_all (\<lambda>b. b < 128) d then Inr d
                              else Inl (Exception ''UnicodeDecodeError'' (ustr ''invalid start byte''))),
      save = (\<lambda>d p fs. (None, (p, d) # fs)),
      english_stop_words = {},
      tfidf_cosine = (\<lambda>stop docs. Inr (map (\<lambda>d. if d = hd docs then 1 else if d = [] then 0
                                                else 1 / 2) (tl docs))),
      round_score = (\<lambda>x. x * 100),
      console_print = (\<lambda>line. if list_ex (\<lambda>c. 0xD800 \<le> c \<and> c \<le> 0xDFFF) line
                              then Some (Exception ''UnicodeEncodeError''
                                           (ustr ''surrogates not allowed''))
                              else None)\<rparr>"


section \<open>Properties of the normalizer\<close>

lemma url_lits_nonspace:
  "\<forall>x\<in>set (ustr ''http''). \<not> isspace x" "\<forall>x\<in>set (ustr ''www.''). \<not> isspace x"
  by (simp_all add: ustr_def isspace_def)

lemma url_at_take5: "url_at s \<Longrightarrow> \<forall>x\<in>set (take 5 s). \<not> isspace x"
proof -
  assume u: "url_at s"
  then have l: "5 \<le> length s" by (simp add: url_at_def)
  then have "take 5 s = take 4 s @ [s ! 4]"
    using take_Suc_conv_app_nth [of 4 s] by simp
  moreover have "\<forall>x\<in>set (take 4 s). \<not> isspace x"
    using u url_lits_nonspace unfolding url_at_def by metis
  moreover have "\<not> isspace (s ! 4)" using u by (simp add: url_at_def)
  ultimately show ?thesis by simp
qed

lemma url_at_cong: "take 5 s = take 5 t \<Longrightarrow> url_at s = url_at t"
proof -
  assume e: "take 5 s = take 5 t"
  have l: "(5 \<le> length s) = (5 \<le> length t)"
    using arg_cong [OF e, of length] by (simp add: min_def split: if_splits)
  have "take 4 (take 5 s) = take 4 (take 5 t)" using e by simp
  then have t4: "take 4 s = take 4 t" by simp
  have "take 5 s ! 4 = take 5 t ! 4" using e by simp
  then have n: "s ! 4 = t ! 4" by simp
  show ?thesis unfolding url_at_def using l t4 n by simp
qed

lemma url_at_length: "url_at s \<Longrightarrow> 5 \<le> length s"
  by (simp add: url_at_def)

lemma url_at_append: "url_at p \<Longrightarrow> url_at (p @ q)"
  using url_at_cong [of "p @ q" p] url_at_length [of p] by simp

lemma url_at_space_cut:
  assumes "isspace c" "url_at (p @ c # q)"
  shows "url_at p"
proof (cases "5 \<le> length p")
  case True
  then show ?thesis using url_at_cong [of "p @ c # q" p] assms by simp
next
  case False
  then obtain n where "5 - length p = Suc n" by (cases "5 - length p") auto
  then have "c \<in> set (take 5 (p @ c # q))" by simp
  then show ?thesis using url_at_take5 [OF assms(2)] assms(1) by blast
qed

lemma url_at_not_space: "url_at (c # cs) \<Longrightarrow> \<not> isspace c"
  using url_at_take5 [of "c # cs"] by simp

lemma strip_urls_space: "isspace c \<Longrightarrow> strip_urls (c # cs) = c # strip_urls cs"
  using url_at_not_space by auto

lemma dropWhile_nonspace_hd:
  "dropWhile (\<lambda>x. \<not> isspace x) s = [] \<or> (\<exists>c r. dropWhile (\<lambda>x. \<not> isspace x) s = c # r \<and> isspace c)"
  using hd_dropWhile [of "\<lambda>x. \<not> isspace x" s]
  by (cases "dropWhile (\<lambda>x. \<not> isspace x) s") auto

lemma url_at_strip_urls: "url_at (p @ strip_urls s) \<Longrightarrow> url_at (p @ s)"
proof (induction s arbitrary: p rule: strip_urls.induct)
  case 1
  then show ?case by simp
next
  case (2 c cs)
  show ?case
  proof (cases "url_at (c # cs)")
    case True
    let ?r = "dropWhile (\<lambda>x. \<not> isspace x) (drop 4 (c # cs))"
    have eq: "strip_urls (c # cs) = strip_urls ?r" using True by simp
    have u: "url_at (p @ strip_urls ?r)" using "2.prems" by (simp only: eq)
    have "url_at p"
    proof -
      from dropWhile_nonspace_hd [of "drop 4 (c # cs)"]
      consider "?r = []" | d r where "?r = d # r" "isspace d" by blast
      then show ?thesis
      proof cases
        case 1
        then have "strip_urls ?r = []" by (simp only: strip_urls.simps)
        then show ?thesis using u by (simp only: append_Nil2)
      next
        case 2
        then have "strip_urls ?r = d # strip_urls r" using strip_urls_space by (simp only:)
        then have "url_at (p @ d # strip_urls r)" using u by (simp only:)
        then show ?thesis using url_at_space_cut [OF 2(2)] by blast
      qed
    qed
    then show ?thesis by (rule url_at_append)
  next
    case False
    then have "url_at ((p @ [c]) @ strip_urls cs)" using "2.prems" by simp
    then have "url_at ((p @ [c]) @ cs)" using "2.IH"(2) [OF False] by blast
    then show ?thesis by simp
  qed
qed

lemma no_url_strip_urls: "\<not> has_url (strip_urls s)"
proof (induction s rule: strip_urls.induct)
  case 1
  then show ?case by simp
next
  case (2 c cs)
  show ?case
  proof (cases "url_at (c # cs)")
    case True
    then show ?thesis using 2 by simp
  next
    case False
    then have "\<not> url_at (c # strip_urls cs)" using url_at_strip_urls [of "[c]" cs] by auto
    then show ?thesis using False 2 by simp
  qed
qed

lemma strip_urls_id: "\<not> has_url s \<Longrightarrow> strip_urls s = s"
  by (induction s) auto

lemma set_strip_urls: "set (strip_urls s) \<subseteq> set s"
proof (induction s rule: strip_urls.induct)
  case 1
  then show ?case by simp
next
  case (2 c cs)
  show ?case
  proof (cases "url_at (c # cs)")
    case True
    have "set (dropWhile (\<lambda>x. \<not> isspace x) (drop 4 (c # cs))) \<subseteq> set (c # cs)"
      using set_dropWhileD set_drop_subset by fast
    then show ?thesis using True 2 by auto
  next
    case False
    then show ?thesis using 2 by auto
  qed
qed

lemma url_at_tok: "url_at s = url_at (takeWhile (\<lambda>c. \<not> isspace c) s)"
proof (cases "dropWhile (\<lambda>c. \<not> isspace c) s")
  case Nil
  then have "takeWhile (\<lambda>c. \<not> isspace c) s = s"
    by (simp add: takeWhile_eq_all_conv)
  then show ?thesis by (simp only:)
next
  case (Cons d r)
  then have d: "isspace d" using hd_dropWhile [of "\<lambda>c. \<not> isspace c" s] by auto
  have s: "s = takeWhile (\<lambda>c. \<not> isspace c) s @ d # r"
    using takeWhile_dropWhile_id [of "\<lambda>c. \<not> isspace c" s] Cons by simp
  show ?thesis
    using url_at_space_cut [OF d, of "takeWhile (\<lambda>c. \<not> isspace c) s" r]
      url_at_append [of "takeWhile (\<lambda>c. \<not> isspace c) s" "d # r"] s by auto
qed

lemma has_url_append1: "has_url p \<Longrightarrow> has_url (p @ q)"
  by (induction p) (auto dest: url_at_append)

lemma has_url_append2: "has_url q \<Longrightarrow> has_url (p @ q)"
  by (induction p) auto

lemma has_url_dropWhile: "has_url (dropWhile P s) \<Longrightarrow> has_url s"
  using has_url_append2 [of "dropWhile P s" "takeWhile P s"] by simp

lemma isspace_32: "isspace 32"
  by (simp add: isspace_def)

lemma tok_sub_runs:
  "(\<And>c. P c \<Longrightarrow> isspace c) \<Longrightarrow>
   takeWhile (\<lambda>c. \<not> isspace c) (sub_runs P s) = takeWhile (\<lambda>c. \<not> isspace c) s"
  by (induction P s rule: sub_runs.induct) (auto simp: isspace_32)

lemma url_at_sub_runs: "(\<And>c. P c \<Longrightarrow> isspace c) \<Longrightarrow> url_at (sub_runs P s) = url_at s"
  using url_at_tok [of "sub_runs P s"] url_at_tok [of s] tok_sub_runs [of P s] by simp

lemma has_url_sub_runs:
  "(\<And>c. P c \<Longrightarrow> isspace c) \<Longrightarrow> has_url (sub_runs P s) \<Longrightarrow> has_url s"
proof (induction P s rule: sub_runs.induct)
  case (1 P)
  then show ?case by simp
next
  case (2 P c cs)
  show ?case
  proof (cases "url_at (c # cs)")
    case True
    then show ?thesis by simp
  next
    case False
    then have nu: "\<not> url_at (sub_runs P (c # cs))" using url_at_sub_runs [of P "c # cs"] "2.prems"(1) by blast
    show ?thesis
    proof (cases "P c")
      case True
      then have "has_url (sub_runs P (dropWhile P cs))" using "2.prems"(2) nu by simp
      then have "has_url (dropWhile P cs)" using "2.IH"(1) [OF True] "2.prems"(1) by blast
      then show ?thesis using has_url_dropWhile by simp
    next
      case False
      then have "has_url (sub_runs P cs)" using "2.prems"(2) nu by simp
      then show ?thesis using "2.IH"(2) [OF False] "2.prems"(1) by simp
    qed
  qed
qed

lemma map_sep_eq:
  "\<forall>x\<in>set ys. x \<noteq> 32 \<Longrightarrow> map (\<lambda>c. if is_separator c then 32 else c) xs = ys \<Longrightarrow> xs = ys"
  by (induction xs arbitrary: ys) (auto split: if_splits)

lemma url_at_map_sep:
  assumes "url_at (map (\<lambda>c. if is_separator c then 32 else c) s)"
  shows "url_at s"
proof -
  let ?f = "\<lambda>c. if is_separator c then (32::nat) else c"
  have l: "5 \<le> length s" using assms by (simp add: url_at_def)
  have n32: "\<forall>x\<in>set (ustr ''http''). x \<noteq> 32" "\<forall>x\<in>set (ustr ''www.''). x \<noteq> 32"
    by (simp_all add: ustr_def)
  have "map ?f (take 4 s) = ustr ''http'' \<or> map ?f (take 4 s) = ustr ''www.''"
    using assms by (simp add: url_at_def take_map)
  then have t: "take 4 s = ustr ''http'' \<or> take 4 s = ustr ''www.''"
    using map_sep_eq n32 by blast
  have "\<not> isspace (?f (s ! 4))" using assms l by (simp add: url_at_def)
  then have "\<not> isspace (s ! 4)" using isspace_32 by (auto split: if_splits)
  then show ?thesis using l t by (simp add: url_at_def)
qed

lemma has_url_map_sep:
  "has_url (map (\<lambda>c. if is_separator c then 32 else c) s) \<Longrightarrow> has_url s"
proof (induction s)
  case Nil
  then show ?case by simp
next
  case (Cons c cs)
  then show ?case using url_at_map_sep [of "c # cs"] by auto
qed

lemma strip_decomp: "\<exists>a b. s = a @ strip s @ b"
proof -
  let ?t = "dropWhile isspace s"
  have "s = takeWhile isspace s @ ?t" by simp
  moreover have "rev ?t = takeWhile isspace (rev ?t) @ dropWhile isspace (rev ?t)" by simp
  then have "?t = strip s @ rev (takeWhile isspace (rev ?t))"
    unfolding strip_def using rev_swap rev_append by metis
  ultimately show ?thesis by metis
qed

lemma has_url_strip: "has_url (strip s) \<Longrightarrow> has_url s"
proof -
  assume h: "has_url (strip s)"
  obtain a b where s: "s = a @ strip s @ b" using strip_decomp by blast
  have "has_url (a @ strip s @ b)" using h has_url_append1 has_url_append2 by blast
  then show ?thesis using s by simp
qed

lemma py_lower_ascii:
  "\<forall>c\<in>set s. c < 128 \<Longrightarrow>
   py_lower lw s = map (\<lambda>c. if 65 \<le> c \<and> c \<le> 90 then c + 32 else c) s"
  by (induction s) (auto simp: py_lower_def lower_cp_def)

lemma py_lower_id:
  "\<forall>c\<in>set s. c < 128 \<and> \<not> (65 \<le> c \<and> c \<le> 90) \<Longrightarrow> py_lower lw s = s"
  by (induction s) (auto simp: py_lower_def lower_cp_def)

lemma lower_cp_no_upper:
  assumes "\<forall>c\<ge>128. \<forall>d\<in>set (lw c). \<not> (65 \<le> d \<and> d \<le> 90)" "d \<in> set (lower_cp lw c)"
  shows "\<not> (65 \<le> d \<and> d \<le> 90)"
proof (cases "c < 128")
  case True
  then show ?thesis using assms(2) by (auto simp: lower_cp_def split: if_splits)
next
  case False
  then have "d \<in> set (lw c)" "128 \<le> c" using assms(2) by (auto simp: lower_cp_def)
  then show ?thesis using assms(1) by blast
qed

lemma py_lower_no_upper:
  assumes "\<forall>c\<ge>128. \<forall>d\<in>set (lw c). \<not> (65 \<le> d \<and> d \<le> 90)" "d \<in> set (py_lower lw s)"
  shows "\<not> (65 \<le> d \<and> d \<le> 90)"
proof -
  obtain c where "d \<in> set (lower_cp lw c)" using assms(2) by (auto simp: py_lower_def)
  then show ?thesis using lower_cp_no_upper [OF assms(1)] by blast
qed

lemma set_sub_runs: "set (sub_runs P s) \<subseteq> insert 32 {c \<in> set s. \<not> P c}"
proof (induction P s rule: sub_runs.induct)
  case (1 P)
  then show ?case by simp
next
  case (2 P c cs)
  have "set (dropWhile P cs) \<subseteq> set cs" using set_dropWhileD by fast
  then show ?case using 2 by (cases "P c") auto
qed

lemma set_strip: "set (strip s) \<subseteq> set s"
proof -
  obtain a b where "s = a @ strip s @ b" using strip_decomp by blast
  then have "set s = set a \<union> set (strip s) \<union> set b" by (metis set_append sup_assoc)
  then show ?thesis by blast
qed

lemma single_spaced_Cons: "c \<noteq> 32 \<Longrightarrow> single_spaced (c # s) = single_spaced s"
  by (cases s) auto

lemma single_spaced_sub_runs: "P 32 \<Longrightarrow> single_spaced (sub_runs P s)"
proof (induction P s rule: sub_runs.induct)
  case (1 P)
  then show ?case by simp
next
  case (2 P c cs)
  show ?case
  proof (cases "P c")
    case True
    show ?thesis
    proof (cases "dropWhile P cs")
      case Nil
      then have "sub_runs P (dropWhile P cs) = []" by (simp only: sub_runs.simps)
      then show ?thesis using True by (simp del: dropWhile_eq_Nil_conv)
    next
      case (Cons d r)
      then have "\<not> P d" using hd_dropWhile [of P cs] by auto
      then have "sub_runs P (dropWhile P cs) = d # sub_runs P r" "d \<noteq> 32"
        using Cons "2.prems" by auto
      then show ?thesis using True "2.IH"(1) [OF True "2.prems"] by simp
    qed
  next
    case False
    then have "c \<noteq> 32" using "2.prems" by auto
    then show ?thesis using False "2.IH"(2) [OF False "2.prems"] single_spaced_Cons by simp
  qed
qed

lemma single_spaced_append2: "single_spaced (a @ b) \<Longrightarrow> single_spaced b"
proof (induction a)
  case Nil
  then show ?case by simp
next
  case (Cons c a)
  then show ?case by (cases "a @ b") auto
qed

lemma single_spaced_append1: "single_spaced (a @ b) \<Longrightarrow> single_spaced a"
proof (induction a rule: single_spaced.induct)
  case (1 x y cs)
  then show ?case by simp
qed simp_all

lemma single_spaced_strip: "single_spaced s \<Longrightarrow> single_spaced (strip s)"
proof -
  assume h: "single_spaced s"
  obtain a b where s: "s = a @ strip s @ b" using strip_decomp by blast
  then have "single_spaced (a @ strip s @ b)" using h by simp
  then show ?thesis using single_spaced_append1 single_spaced_append2 by blast
qed

lemma last_dropWhile: "dropWhile Q xs \<noteq> [] \<Longrightarrow> last (dropWhile Q xs) = last xs"
  by (induction xs) (auto split: if_splits)

lemma strip_trimmed:
  "strip s = [] \<or> (\<not> isspace (hd (strip s)) \<and> \<not> isspace (last (strip s)))"
proof (cases "strip s = []")
  case True
  then show ?thesis by simp
next
  case False
  let ?t = "dropWhile isspace s"
  let ?u = "dropWhile isspace (rev ?t)"
  have u: "?u \<noteq> []" using False by (simp add: strip_def)
  then have t: "?t \<noteq> []" by (metis dropWhile.simps(1) rev.simps(1))
  have "last (strip s) = hd ?u" using u by (simp add: strip_def last_rev)
  then have l: "\<not> isspace (last (strip s))" using hd_dropWhile [OF u] by simp
  have "hd (strip s) = last ?u" using u by (simp add: strip_def hd_rev)
  also have "\<dots> = last (rev ?t)" using last_dropWhile [OF u] .
  also have "\<dots> = hd ?t" using t by (simp add: last_rev)
  finally have "\<not> isspace (hd (strip s))" using hd_dropWhile [OF t] by simp
  then show ?thesis using l by simp
qed

lemma strip_id:
  "s = [] \<or> (\<not> isspace (hd s) \<and> \<not> isspace (last s)) \<Longrightarrow> strip s = s"
proof (cases s)
  case Nil
  then show ?thesis by (simp add: strip_def)
next
  case (Cons c cs)
  assume "s = [] \<or> (\<not> isspace (hd s) \<and> \<not> isspace (last s))"
  then have h: "\<not> isspace (hd s)" "\<not> isspace (last s)" using Cons by auto
  have 1: "dropWhile isspace s = s" using h(1) Cons by simp
  have "hd (rev s) = last s" using Cons by (simp add: hd_rev)
  then have "dropWhile isspace (rev s) = rev s" using h(2) Cons by (cases "rev s") auto
  then show ?thesis using 1 by (simp add: strip_def)
qed

lemma sub_runs_none: "\<forall>c\<in>set s. \<not> P c \<Longrightarrow> sub_runs P s = s"
  by (induction s) auto

lemma sub_runs_space_id:
  "\<forall>c\<in>set s. isspace c \<longrightarrow> c = 32 \<Longrightarrow> single_spaced s \<Longrightarrow> sub_runs isspace s = s"
proof (induction s rule: single_spaced.induct)
  case (1 a b cs)
  have p: "\<forall>c\<in>set (b # cs). isspace c \<longrightarrow> c = 32" using "1.prems"(1) by auto
  have q: "single_spaced (b # cs)" "\<not> (a = 32 \<and> b = 32)" using "1.prems"(2) by auto
  have ih: "sub_runs isspace (b # cs) = b # cs" using "1.IH" [OF p q(1)] .
  show ?case
  proof (cases "isspace a")
    case True
    then have a: "a = 32" using "1.prems"(1) by auto
    then have "b \<noteq> 32" using q(2) by blast
    then have "\<not> isspace b" using p by auto
    then have "dropWhile isspace (b # cs) = b # cs" by simp
    then have "sub_runs isspace (a # b # cs) = 32 # sub_runs isspace (b # cs)"
      using True sub_runs.simps(2) [of isspace a "b # cs"] by (simp only: if_True)
    then show ?thesis using ih a by (simp only:)
  next
    case False
    then have "sub_runs isspace (a # b # cs) = a # sub_runs isspace (b # cs)"
      using sub_runs.simps(2) [of isspace a "b # cs"] by (simp only: if_False)
    then show ?thesis using ih by (simp only:)
  qed
qed auto

lemma nl_isspace: "c = 10 \<or> c = 13 \<Longrightarrow> isspace c"
  by (auto simp: isspace_def)

lemma normalize_text_Some:
  "normalize_text lw (Some x) =
   strip (sub_runs isspace (sub_runs (\<lambda>c. c = 10 \<or> c = 13)
     (map (\<lambda>c. if is_separator c then 32 else c)
       (filter (\<lambda>c. c < 128) (strip_urls (py_lower lw x))))))"
  by (simp add: normalize_text_def Let_def)

lemma normalize_text_set:
  assumes "c \<in> set (normalize_text lw (Some x))"
  shows "c = 32 \<or> (c \<in> set (py_lower lw x) \<and> c < 128 \<and> \<not> is_separator c \<and> \<not> isspace c)"
proof -
  let ?s2 = "strip_urls (py_lower lw x)"
  let ?s3 = "filter (\<lambda>c. c < 128) ?s2"
  let ?s4 = "map (\<lambda>c. if is_separator c then 32 else c) ?s3"
  let ?s5 = "sub_runs (\<lambda>c. c = 10 \<or> c = 13) ?s4"
  let ?s6 = "sub_runs isspace ?s5"
  have "c \<in> set ?s6" using assms set_strip unfolding normalize_text_Some by blast
  then have "c = 32 \<or> (c \<in> set ?s5 \<and> \<not> isspace c)" using set_sub_runs [of isspace ?s5] by blast
  then have "c = 32 \<or> (c \<in> set ?s4 \<and> \<not> isspace c)"
    using set_sub_runs [of "\<lambda>c. c = 10 \<or> c = 13" ?s4] by blast
  then have "c = 32 \<or> (c \<in> set ?s3 \<and> \<not> is_separator c \<and> \<not> isspace c)"
    by (auto split: if_splits)
  then have "c = 32 \<or> (c \<in> set ?s2 \<and> c < 128 \<and> \<not> is_separator c \<and> \<not> isspace c)"
    by auto
  then show ?thesis using set_strip_urls by blast
qed

lemma normalize_text_single_spaced: "single_spaced (normalize_text lw (Some x))"
  unfolding normalize_text_Some
  by (rule single_spaced_strip, rule single_spaced_sub_runs, rule isspace_32)

lemma filter_ascii_id: "\<forall>c\<in>set s. c < 128 \<Longrightarrow> filter (\<lambda>c. c < 128) s = s"
  by (induction s) auto

lemma map_sep_id: "\<forall>c\<in>set s. \<not> is_separator c \<Longrightarrow> map (\<lambda>c. if is_separator c then 32 else c) s = s"
  by (induction s) auto

lemma normalize_text_no_url:
  assumes "\<forall>c\<in>set x. c < 128"
  shows "\<not> has_url (normalize_text lw (Some x))"
proof
  let ?s2 = "strip_urls (py_lower lw x)"
  let ?s4 = "map (\<lambda>c. if is_separator c then 32 else c) ?s2"
  let ?s5 = "sub_runs (\<lambda>c. c = 10 \<or> c = 13) ?s4"
  let ?s6 = "sub_runs isspace ?s5"
  have "\<forall>c\<in>set (py_lower lw x). c < 128"
    using assms by (auto simp: py_lower_ascii)
  then have "\<forall>c\<in>set ?s2. c < 128" using set_strip_urls by blast
  then have n: "normalize_text lw (Some x) = strip ?s6"
    unfolding normalize_text_Some by (simp only: filter_ascii_id)
  assume "has_url (normalize_text lw (Some x))"
  then have "has_url ?s6" using n has_url_strip by simp
  then have "has_url ?s5" using has_url_sub_runs [of isspace ?s5] by blast
  then have "has_url ?s4"
    using has_url_sub_runs [of "\<lambda>c. c = 10 \<or> c = 13" ?s4] nl_isspace by blast
  then have "has_url ?s2" by (rule has_url_map_sep)
  then show False using no_url_strip_urls by blast
qed

lemma normalize_text_fixpoint:
  assumes "\<forall>c\<in>set y. c = 32 \<or> (c < 128 \<and> \<not> (65 \<le> c \<and> c \<le> 90) \<and> \<not> is_separator c \<and> \<not> isspace c)"
    and "single_spaced y"
    and "y = [] \<or> (\<not> isspace (hd y) \<and> \<not> isspace (last y))"
    and "\<not> has_url y"
  shows "normalize_text lw (Some y) = y"
proof -
  have 1: "py_lower lw y = y" using assms(1) by (intro py_lower_id) auto
  have 2: "strip_urls y = y" using assms(4) by (rule strip_urls_id)
  have 3: "filter (\<lambda>c. c < 128) y = y" using assms(1) by (intro filter_ascii_id) auto
  have 4: "map (\<lambda>c. if is_separator c then 32 else c) y = y"
    using assms(1) by (intro map_sep_id) (auto simp: is_separator_def)
  have 5: "sub_runs (\<lambda>c. c = 10 \<or> c = 13) y = y"
    using assms(1) by (intro sub_runs_none) (auto simp: isspace_def)
  have 6: "sub_runs isspace y = y"
    using assms(1,2) by (intro sub_runs_space_id) auto
  have 7: "strip y = y" using assms(3) by (rule strip_id)
  show ?thesis unfolding normalize_text_Some by (simp only: 1 2 3 4 5 6 7)
qed

lemma normalize_text_trimmed:
  "normalize_text lw (Some x) = [] \<or>
   (\<not> isspace (hd (normalize_text lw (Some x))) \<and> \<not> isspace (last (normalize_text lw (Some x))))"
  unfolding normalize_text_Some by (rule strip_trimmed)

lemma normalize_text_idem_ascii:
  assumes "\<forall>c\<in>set x. c < 128"
  shows "normalize_text lw (Some (normalize_text lw (Some x))) = normalize_text lw (Some x)"
proof (rule normalize_text_fixpoint)
  show "\<forall>c\<in>set (normalize_text lw (Some x)).
          c = 32 \<or> (c < 128 \<and> \<not> (65 \<le> c \<and> c \<le> 90) \<and> \<not> is_separator c \<and> \<not> isspace c)"
  proof
    fix c assume "c \<in> set (normalize_text lw (Some x))"
    then have "c = 32 \<or> (c \<in> set (py_lower lw x) \<and> c < 128 \<and> \<not> is_separator c \<and> \<not> isspace c)"
      by (rule normalize_text_set)
    moreover have "\<forall>d\<in>set (py_lower lw x). \<not> (65 \<le> d \<and> d \<le> 90)"
      using assms by (auto simp: py_lower_ascii)
    ultimately show "c = 32 \<or> (c < 128 \<and> \<not> (65 \<le> c \<and> c \<le> 90) \<and> \<not> is_separator c \<and> \<not> isspace c)"
      by blast
  qed
  show "single_spaced (normalize_text lw (Some x))" by (rule normalize_text_single_spaced)
  show "normalize_text lw (Some x) = [] \<or>
    (\<not> isspace (hd (normalize_text lw (Some x))) \<and> \<not> isspace (last (normalize_text lw (Some x))))"
    by (rule normalize_text_trimmed)
  show "\<not> has_url (normalize_text lw (Some x))" using assms by (rule normalize_text_no_url)
qed

lemma normalize_text_idem_no_url:
  assumes "\<forall>c\<ge>128. \<forall>d\<in>set (lw c). \<not> (65 \<le> d \<and> d \<le> 90)"
    and "\<not> has_url (normalize_text lw (Some x))"
  shows "normalize_text lw (Some (normalize_text lw (Some x))) = normalize_text lw (Some x)"
proof (rule normalize_text_fixpoint)
  show "\<forall>c\<in>set (normalize_text lw (Some x)).
          c = 32 \<or> (c < 128 \<and> \<not> (65 \<le> c \<and> c \<le> 90) \<and> \<not> is_separator c \<and> \<not> isspace c)"
  proof
    fix c assume "c \<in> set (normalize_text lw (Some x))"
    then have "c = 32 \<or> (c \<in> set (py_lower lw x) \<and> c < 128 \<and> \<not> is_separator c \<and> \<not> isspace c)"
      by (rule normalize_text_set)
    then show "c = 32 \<or> (c < 128 \<and> \<not> (65 \<le> c \<and> c \<le> 90) \<and> \<not> is_separator c \<and> \<not> isspace c)"
      using py_lower_no_upper [OF assms(1)] by blast
  qed
  show "single_spaced (normalize_text lw (Some x))" by (rule normalize_text_single_spaced)
  show "normalize_text lw (Some x) = [] \<or>
    (\<not> isspace (hd (normalize_text lw (Some x))) \<and> \<not> isspace (last (normalize_text lw (Some x))))"
    by (rule normalize_text_trimmed)
  show "\<not> has_url (normalize_text lw (Some x))" by (rule assms(2))
qed

lemma normalize_text_output_ascii: "\<forall>c\<in>set (normalize_text lw (Some x)). c < 128"
proof
  fix c assume "c \<in> set (normalize_text lw (Some x))"
  then have "c = 32 \<or> (c \<in> set (py_lower lw x) \<and> c < 128 \<and> \<not> is_separator c \<and> \<not> isspace c)"
    by (rule normalize_text_set)
  then show "c < 128" by auto
qed


section \<open>The normalizer: claims\<close>

lemmas norm_eval = normalize_text_def py_lower_def lower_cp_def unicode_lower_sample_def ustr_def
  url_at_def isspace_def is_separator_def strip_def

text \<open>
  Claim C2, as stated (the normalizer is idempotent on every string), fails. The input
  is \<open>www\<close>, a soft hyphen (U+00AD) and \<open>.example.com\<close>: the URL pattern of line 63
  does not match it, line 64 then deletes the soft hyphen, and the result
  \<open>www.example.com\<close> is a string that a second normalization deletes as a URL.
\<close>

theorem normalize_text_not_idempotent:
  "normalize_text unicode_lower_sample
     (Some (ustr ''www'' @ [0xAD] @ ustr ''.example.com'')) = ustr ''www.example.com'' \<and>
   normalize_text unicode_lower_sample
     (Some (normalize_text unicode_lower_sample
        (Some (ustr ''www'' @ [0xAD] @ ustr ''.example.com'')))) = [] \<and>
   normalize_text unicode_lower_sample
     (Some (normalize_text unicode_lower_sample
        (Some (ustr ''www'' @ [0xAD] @ ustr ''.example.com'')))) \<noteq>
   normalize_text unicode_lower_sample
     (Some (ustr ''www'' @ [0xAD] @ ustr ''.example.com''))"
  by (simp add: norm_eval)

text \<open>
  Claim C2, amended. Normalizing the normalized string returns it unchanged exactly when
  the normalized string contains no match of the URL pattern of line 63 (given that the
  case mapping above 127 yields none of \<open>A\<close>..\<open>Z\<close>); and this is so for every string
  of 7-bit ASCII characters, whatever the case mapping above 127 is.
\<close>

theorem normalize_text_idempotent_iff:
  "((\<forall>c\<ge>128. \<forall>d\<in>set (lw c). \<not> (65 \<le> d \<and> d \<le> 90)) \<longrightarrow>
      (normalize_text lw (Some (normalize_text lw (Some x))) = normalize_text lw (Some x)) =
      (\<not> has_url (normalize_text lw (Some x)))) \<and>
   ((\<forall>c\<in>set x. c < 128) \<longrightarrow>
      normalize_text lw (Some (normalize_text lw (Some x))) = normalize_text lw (Some x))"
proof (intro conjI impI)
  assume lw: "\<forall>c\<ge>128. \<forall>d\<in>set (lw c). \<not> (65 \<le> d \<and> d \<le> 90)"
  show "(normalize_text lw (Some (normalize_text lw (Some x))) = normalize_text lw (Some x)) =
      (\<not> has_url (normalize_text lw (Some x)))"
  proof
    assume e: "normalize_text lw (Some (normalize_text lw (Some x))) = normalize_text lw (Some x)"
    have "\<not> has_url (normalize_text lw (Some (normalize_text lw (Some x))))"
      using normalize_text_output_ascii by (rule normalize_text_no_url)
    with e show "\<not> has_url (normalize_text lw (Some x))" by metis
  next
    assume "\<not> has_url (normalize_text lw (Some x))"
    with lw show "normalize_text lw (Some (normalize_text lw (Some x))) = normalize_text lw (Some x)"
      by (rule normalize_text_idem_no_url)
  qed
next
  assume "\<forall>c\<in>set x. c < 128"
  then show "normalize_text lw (Some (normalize_text lw (Some x))) = normalize_text lw (Some x)"
    by (rule normalize_text_idem_ascii)
qed

theorem normalize_text_idempotent_iff_witness:
  "normalize_text unicode_lower_sample
     (Some (normalize_text unicode_lower_sample (Some (ustr ''See  http://a.b/c - NOW'')))) =
   normalize_text unicode_lower_sample (Some (ustr ''See  http://a.b/c - NOW'')) \<and>
   normalize_text unicode_lower_sample
     (Some (normalize_text unicode_lower_sample (Some (ustr ''Caf'' @ [0xC9, 32, 0x2022] @ ustr '' Bar'')))) =
   normalize_text unicode_lower_sample (Some (ustr ''Caf'' @ [0xC9, 32, 0x2022] @ ustr '' Bar''))"
proof -
  have h: "\<forall>c\<in>set (ustr ''See  http://a.b/c - NOW''). c < 128"
    by (simp add: ustr_def)
  have l: "\<forall>c\<ge>128. \<forall>d\<in>set (unicode_lower_sample c). \<not> (65 \<le> d \<and> d \<le> 90)"
    by (simp add: unicode_lower_sample_def)
  have n: "\<not> has_url (normalize_text unicode_lower_sample
      (Some (ustr ''Caf'' @ [0xC9, 32, 0x2022] @ ustr '' Bar'')))"
    by (simp add: norm_eval)
  note a = normalize_text_idempotent_iff [of unicode_lower_sample "ustr ''See  http://a.b/c - NOW''",
      THEN conjunct2, THEN mp, OF h]
  note b = normalize_text_idempotent_iff [of unicode_lower_sample
      "ustr ''Caf'' @ [0xC9, 32, 0x2022] @ ustr '' Bar''", THEN conjunct1, THEN mp, OF l,
      THEN iffD2, OF n]
  show ?thesis using a b by (intro conjI)
qed

text \<open>
  Claim C6, as stated (no output of the normalizer contains a URL), fails. The input is
  \<open>h\<close>, the letter e with acute accent (U+00E9) and \<open>ttpbin.org/get\<close>: no URL is
  found at line 63, line 64 deletes the accented letter, and the output
  \<open>httpbin.org/get\<close> starts with \<open>http\<close> and matches the URL pattern.
\<close>

theorem normalize_text_output_with_url:
  "normalize_text unicode_lower_sample
     (Some (ustr ''h'' @ [0xE9] @ ustr ''ttpbin.org/get'')) = ustr ''httpbin.org/get'' \<and>
   has_url (ustr ''httpbin.org/get'') \<and>
   take 4 (ustr ''httpbin.org/get'') = ustr ''http''"
  by (simp add: norm_eval)

text \<open>
  Claim C6, amended. For every input string the output of the normalizer contains only
  7-bit ASCII characters, no line break and no whitespace other than the space, no two
  spaces in a row, and neither starts nor ends with whitespace; it contains no upper-case
  letter, given that the case mapping above 127 yields none of \<open>A\<close>..\<open>Z\<close>; and when
  the input is 7-bit ASCII, the URL pattern of line 63 matches nowhere in the output.
\<close>

theorem normalize_text_invariant:
  "(\<forall>c\<in>set (normalize_text lw (Some x)). c < 128) \<and>
   10 \<notin> set (normalize_text lw (Some x)) \<and> 13 \<notin> set (normalize_text lw (Some x)) \<and>
   (\<forall>c\<in>set (normalize_text lw (Some x)). isspace c \<longrightarrow> c = 32) \<and>
   single_spaced (normalize_text lw (Some x)) \<and>
   (normalize_text lw (Some x) = [] \<or>
      \<not> isspace (hd (normalize_text lw (Some x))) \<and>
      \<not> isspace (last (normalize_text lw (Some x)))) \<and>
   ((\<forall>c\<ge>128. \<forall>d\<in>set (lw c). \<not> (65 \<le> d \<and> d \<le> 90)) \<longrightarrow>
      (\<forall>c\<in>set (normalize_text lw (Some x)). \<not> (65 \<le> c \<and> c \<le> 90))) \<and>
   ((\<forall>c\<in>set x. c < 128) \<longrightarrow> \<not> has_url (normalize_text lw (Some x)))"
proof -
  let ?y = "normalize_text lw (Some x)"
  have s: "\<forall>c\<in>set ?y. c = 32 \<or>
      (c \<in> set (py_lower lw x) \<and> c < 128 \<and> \<not> is_separator c \<and> \<not> isspace c)"
    using normalize_text_set by blast
  have 1: "\<forall>c\<in>set ?y. c < 128" using s by auto
  have 2: "\<forall>c\<in>set ?y. isspace c \<longrightarrow> c = 32" using s by blast
  have 3: "10 \<notin> set ?y \<and> 13 \<notin> set ?y" using 2 nl_isspace by fastforce
  have 4: "(\<forall>c\<ge>128. \<forall>d\<in>set (lw c). \<not> (65 \<le> d \<and> d \<le> 90)) \<longrightarrow>
      (\<forall>c\<in>set ?y. \<not> (65 \<le> c \<and> c \<le> 90))"
  proof (intro impI ballI)
    fix c
    assume h: "\<forall>c\<ge>128. \<forall>d\<in>set (lw c). \<not> (65 \<le> d \<and> d \<le> 90)" and c: "c \<in> set ?y"
    from s c consider "c = 32" | "c \<in> set (py_lower lw x)" by blast
    then show "\<not> (65 \<le> c \<and> c \<le> 90)"
      using py_lower_no_upper [OF h] by cases auto
  qed
  have 5: "(\<forall>c\<in>set x. c < 128) \<longrightarrow> \<not> has_url ?y"
    using normalize_text_no_url by blast
  show ?thesis
    using 1 2 3 4 5 normalize_text_single_spaced [of lw x] normalize_text_trimmed [of lw x]
    by blast
qed

theorem normalize_text_invariant_witness:
  "list_all (\<lambda>c. c < 128 \<and> \<not> (65 \<le> c \<and> c \<le> 90))
     (normalize_text unicode_lower_sample (Some (ustr ''See  http://a.b/c - NOW''))) \<and>
   single_spaced (normalize_text unicode_lower_sample (Some (ustr ''See  http://a.b/c - NOW''))) \<and>
   \<not> has_url (normalize_text unicode_lower_sample (Some (ustr ''See  http://a.b/c - NOW'')))"
proof -
  have h1: "\<forall>c\<ge>128. \<forall>d\<in>set (unicode_lower_sample c). \<not> (65 \<le> d \<and> d \<le> 90)"
    by (simp add: unicode_lower_sample_def)
  have h2: "\<forall>c\<in>set (ustr ''See  http://a.b/c - NOW''). c < 128"
    by (simp add: ustr_def)
  show ?thesis
    unfolding list_all_iff
    using h1 h2
      normalize_text_invariant [of unicode_lower_sample "ustr ''See  http://a.b/c - NOW''"]
    by blast
qed

text \<open>
  Claim C7. The normalizer is to replace each of the characters hyphen, asterisk, bullet,
  en dash, em dash and colon by one space, so that a bullet or an en dash between \<open>a\<close>
  and \<open>b\<close> gives \<open>a b\<close>. The code does so for the hyphen, the asterisk and the colon.
  The bullet (U+2022), the en dash (U+2013) and the em dash (U+2014) are above 127:
  line 64 has deleted them before line 65 looks for them, and the result is \<open>ab\<close>.
\<close>

theorem normalize_text_bullet_deleted:
  "normalize_text unicode_lower_sample (Some ([97, 0x2022, 98])) = ustr ''ab'' \<and>
   normalize_text unicode_lower_sample (Some ([97, 0x2013, 98])) = ustr ''ab'' \<and>
   normalize_text unicode_lower_sample (Some ([97, 0x2014, 98])) = ustr ''ab'' \<and>
   normalize_text unicode_lower_sample (Some (ustr ''a-b*c:d'')) = ustr ''a b c d''"
  by (simp add: norm_eval)


section \<open>The tier classifier\<close>

text \<open>
  Claim C3. The tier classifier is a total function of the score and its four tiers
  partition the real numbers, each lower bound inclusive: Tier 1 exactly for scores of at
  least 80, Tier 2 exactly from 60 up to but not including 80, Tier 3 exactly from 40 up
  to but not including 60, Tier 4 exactly below 40. In particular 80.0 is Tier 1, 79.99
  is Tier 2 and 39.99 is Tier 4.
\<close>

theorem get_confidence_tier_partition:
  "(label (get_confidence_tier s) = ''Tier 1 (Excellent Match)'') = (80 \<le> s) \<and>
   (label (get_confidence_tier s) = ''Tier 2 (Strong Fit)'') = (60 \<le> s \<and> s < 80) \<and>
   (label (get_confidence_tier s) = ''Tier 3 (Average Fit)'') = (40 \<le> s \<and> s < 60) \<and>
   (label (get_confidence_tier s) = ''Tier 4 (Low Fit)'') = (s < 40) \<and>
   label (get_confidence_tier 80.0) = ''Tier 1 (Excellent Match)'' \<and>
   label (get_confidence_tier 79.99) = ''Tier 2 (Strong Fit)'' \<and>
   label (get_confidence_tier 39.99) = ''Tier 4 (Low Fit)''"
  by (simp add: get_confidence_tier_def)


section \<open>Text extraction: claims\<close>

lemma py_lower_append: "py_lower lw (a @ b) = py_lower lw a @ py_lower lw b"
  by (simp add: py_lower_def)

lemma endswith_append: "length c \<le> length b \<Longrightarrow> endswith (a @ b) c = endswith b c"
  by (simp add: endswith_def)

lemma endswith_self: "endswith b b"
  by (simp add: endswith_def)

text \<open>
  What leaves the extractor: a string, or else the exception of a \<open>print\<close> in one of
  the three handlers.
\<close>

lemma extract_text_from_pdf_cases:
  "(\<exists>t. extract_text_from_pdf w fs p = Inr t) \<or>
   (\<exists>e line. console_print w line = Some e \<and> extract_text_from_pdf w fs p = Inl e)"
  unfolding extract_text_from_pdf_def try_except_def
  by (auto split: sum.splits option.splits)

lemma extract_text_from_docx_cases:
  "(\<exists>t. extract_text_from_docx w fs p = Inr t) \<or>
   (\<exists>e line. console_print w line = Some e \<and> extract_text_from_docx w fs p = Inl e)"
  unfolding extract_text_from_docx_def try_except_def
  by (auto split: sum.splits option.splits)

lemma extract_text_from_txt_cases:
  "(\<exists>t. extract_text_from_txt w fs p = Inr t) \<or>
   (\<exists>e line. console_print w line = Some e \<and> extract_text_from_txt w fs p = Inl e)"
  unfolding extract_text_from_txt_def try_except_def
  by (auto split: sum.splits option.splits)

lemma extract_text_cases:
  "(\<exists>t. extract_text w fs p = Inr t) \<or>
   (\<exists>e line. console_print w line = Some e \<and> extract_text w fs p = Inl e)"
  using extract_text_from_pdf_cases [of w fs p] extract_text_from_docx_cases [of w fs p]
    extract_text_from_txt_cases [of w fs p]
  by (simp add: extract_text_def)

lemma extract_text_quiet:
  assumes "\<forall>line. console_print w line = None"
  shows "\<exists>t. extract_text w fs p = Inr t"
  using extract_text_cases [of w fs p] assms by auto

lemma pdf_pages_text_failing: "Inl e \<in> set pages \<Longrightarrow> \<exists>e'. pdf_pages_text pages acc = Inl e'"
  by (induction pages acc rule: pdf_pages_text.induct) (auto split: sum.splits option.splits)

lemma read_resumes_names:
  "read_resumes w files ns ts fs = (Inr (ns', ts'), fs') \<Longrightarrow>
   ns' = ns @ map filename (filter (\<lambda>f. filename f \<noteq> []) files) \<and>
   length ts' = length ts + length (filter (\<lambda>f. filename f \<noteq> []) files)"
proof (induction files arbitrary: ns ts fs)
  case Nil
  then show ?case by simp
next
  case (Cons f files)
  show ?case
  proof (cases "filename f = []")
    case True
    then show ?thesis using Cons by simp
  next
    case False
    obtain r s where sv: "save w (content f) (path_join (ustr ''uploads/'') (filename f)) fs = (r, s)"
      by (cases "save w (content f) (path_join (ustr ''uploads/'') (filename f)) fs")
    have r: "r = None" using Cons.prems False sv by (cases r) (simp_all add: Let_def)
    obtain t where ex: "extract_text w s (path_join (ustr ''uploads/'') (filename f)) = Inr t"
      using Cons.prems False sv r
      by (cases "extract_text w s (path_join (ustr ''uploads/'') (filename f))")
         (simp_all add: Let_def)
    then have "read_resumes w files (ns @ [filename f])
        (ts @ [normalize_text (unicode_lower w) (Some t)]) s = (Inr (ns', ts'), fs')"
      using Cons.prems False sv r by (simp add: Let_def)
    then show ?thesis using Cons.IH False by fastforce
  qed
qed

lemma read_resumes_total:
  assumes "\<forall>d q s. fst (save w d q s) = None" and "\<forall>line. console_print w line = None"
  shows "\<exists>ts' fs'. read_resumes w files ns ts fs =
           (Inr (ns @ map filename (filter (\<lambda>f. filename f \<noteq> []) files), ts'), fs') \<and>
         length ts' = length ts + length (filter (\<lambda>f. filename f \<noteq> []) files)"
proof (induction files arbitrary: ns ts fs)
  case Nil
  then show ?case by simp
next
  case (Cons f files)
  show ?case
  proof (cases "filename f = []")
    case True
    then show ?thesis using Cons [of ns ts fs] by simp
  next
    case False
    obtain s where sv: "save w (content f) (path_join (ustr ''uploads/'') (filename f)) fs = (None, s)"
      using assms(1) by (metis fst_conv surj_pair)
    obtain t where ex: "extract_text w s (path_join (ustr ''uploads/'') (filename f)) = Inr t"
      using extract_text_quiet [OF assms(2), of s "path_join (ustr ''uploads/'') (filename f)"]
      by blast
    have "read_resumes w (f # files) ns ts fs = read_resumes w files (ns @ [filename f])
        (ts @ [normalize_text (unicode_lower w) (Some t)]) s"
      using False sv ex by (simp add: Let_def)
    then show ?thesis
      using Cons [of "ns @ [filename f]" "ts @ [normalize_text (unicode_lower w) (Some t)]" s] False
      by auto
  qed
qed

lemmas world_eval = sample_world_def extract_text_def extract_text_from_pdf_def
  extract_text_from_docx_def extract_text_from_txt_def try_except_def endswith_def path_join_def

text \<open>
  Without a failing \<open>print\<close> the extractor does what is asked of it: a path with none of
  the three extensions gives the empty string, and so does a reader whose library call
  raises.
\<close>

lemma extract_text_empty_on_failure:
  assumes "\<forall>line. console_print w line = None"
  shows "(\<not> endswith (py_lower (unicode_lower w) p) (ustr ''.pdf'') \<and>
          \<not> endswith (py_lower (unicode_lower w) p) (ustr ''.docx'') \<and>
          \<not> endswith (py_lower (unicode_lower w) p) (ustr ''.txt'') \<longrightarrow>
            extract_text w fs p = Inr []) \<and>
         (pdf_open w fs p = Inl e \<longrightarrow> extract_text_from_pdf w fs p = Inr []) \<and>
         (pdf_open w fs p = Inr pages \<and> Inl e \<in> set pages \<longrightarrow>
            extract_text_from_pdf w fs p = Inr []) \<and>
         (docx_process w fs p = Inl e \<longrightarrow> extract_text_from_docx w fs p = Inr []) \<and>
         (read_utf8 w fs p = Inl e \<longrightarrow> extract_text_from_txt w fs p = Inr [])"
proof -
  have 1: "pdf_open w fs p = Inr pages \<and> Inl e \<in> set pages \<longrightarrow>
      extract_text_from_pdf w fs p = Inr []"
  proof
    assume h: "pdf_open w fs p = Inr pages \<and> Inl e \<in> set pages"
    then obtain e' where "pdf_pages_text pages [] = Inl e'"
      using pdf_pages_text_failing by blast
    then show "extract_text_from_pdf w fs p = Inr []"
      using h assms by (simp add: extract_text_from_pdf_def try_except_def)
  qed
  show ?thesis
    using 1 assms
    by (simp add: extract_text_def extract_text_from_pdf_def extract_text_from_docx_def
        extract_text_from_txt_def try_except_def)
qed

text \<open>
  Claim C5. The extractor is to return the empty string for any file it cannot read and
  never to raise to its caller. The three readers do catch every exception of their
  library, but each handler prints the file path and the text of the exception before it
  returns, and an exception of that \<open>print\<close> leaves \<open>extract_text\<close>. With standard
  output in UTF-8 this happens for a path that holds a lone surrogate (here U+DC80), such
  as a file name that is not valid UTF-8 on disk: the file is not found, the handler
  prints its path, and the caller gets \<open>UnicodeEncodeError\<close> instead of the empty string.
\<close>

theorem extract_text_raises_from_handler:
  "extract_text sample_world [] ([0xDC80] @ ustr ''.pdf'') =
     Inl (Exception ''UnicodeEncodeError'' (ustr ''surrogates not allowed'')) \<and>
   extract_text sample_world [] ([0xDC80] @ ustr ''.docx'') =
     Inl (Exception ''UnicodeEncodeError'' (ustr ''surrogates not allowed'')) \<and>
   extract_text sample_world [] ([0xDC80] @ ustr ''.txt'') =
     Inl (Exception ''UnicodeEncodeError'' (ustr ''surrogates not allowed''))"
  by (simp add: world_eval py_lower_def lower_cp_def unicode_lower_sample_def ustr_def)

text \<open>
  Claim C10. The extractor chooses the reader by the lower-cased path: a path whose
  extension is \<open>.pdf\<close>, \<open>.docx\<close> or \<open>.txt\<close> in any mix of upper and lower case is
  read by the PDF, the DOCX and the plain-text reader, as the lower-case extension is.
\<close>

theorem extract_text_case_insensitive:
  "(py_lower (unicode_lower w) ext = ustr ''.pdf'' \<longrightarrow>
      extract_text w fs (stem @ ext) = extract_text_from_pdf w fs (stem @ ext)) \<and>
   (py_lower (unicode_lower w) ext = ustr ''.docx'' \<longrightarrow>
      extract_text w fs (stem @ ext) = extract_text_from_docx w fs (stem @ ext)) \<and>
   (py_lower (unicode_lower w) ext = ustr ''.txt'' \<longrightarrow>
      extract_text w fs (stem @ ext) = extract_text_from_txt w fs (stem @ ext))"
proof -
  let ?l = "py_lower (unicode_lower w)"
  have a: "\<And>suf. length suf \<le> length (?l ext) \<Longrightarrow>
      endswith (?l (stem @ ext)) suf = endswith (?l ext) suf"
    by (simp add: py_lower_append endswith_append)
  have p1: "?l ext = ustr ''.pdf'' \<Longrightarrow> endswith (?l (stem @ ext)) (ustr ''.pdf'')"
    using a [of "ustr ''.pdf''"] by (simp add: endswith_self)
  have p2: "?l ext = ustr ''.docx'' \<Longrightarrow>
      \<not> endswith (?l (stem @ ext)) (ustr ''.pdf'') \<and> endswith (?l (stem @ ext)) (ustr ''.docx'')"
    using a [of "ustr ''.pdf''"] a [of "ustr ''.docx''"]
    by (simp add: endswith_def ustr_def)
  have p3: "?l ext = ustr ''.txt'' \<Longrightarrow>
      \<not> endswith (?l (stem @ ext)) (ustr ''.pdf'') \<and>
      \<not> endswith (?l (stem @ ext)) (ustr ''.docx'') \<and>
      endswith (?l (stem @ ext)) (ustr ''.txt'')"
  proof -
    assume e: "?l ext = ustr ''.txt''"
    have "?l (stem @ ext) = ?l stem @ ustr ''.txt''" using e by (simp add: py_lower_append)
    then show ?thesis by (simp add: endswith_def ustr_def)
  qed
  show ?thesis using p1 p2 p3 by (auto simp: extract_text_def)
qed

theorem extract_text_case_insensitive_witness:
  "extract_text sample_world
     [(ustr ''cv.PDF'', [65, 66]), (ustr ''cv.Docx'', 80 # ustr ''go''), (ustr ''cv.TXT'', ustr ''go'')]
     (ustr ''cv'' @ ustr ''.PDF'') = Inr [65, 10, 66, 10] \<and>
   extract_text sample_world
     [(ustr ''cv.PDF'', [65, 66]), (ustr ''cv.Docx'', 80 # ustr ''go''), (ustr ''cv.TXT'', ustr ''go'')]
     (ustr ''cv'' @ ustr ''.Docx'') = Inr (ustr ''go'') \<and>
   extract_text sample_world
     [(ustr ''cv.PDF'', [65, 66]), (ustr ''cv.Docx'', 80 # ustr ''go''), (ustr ''cv.TXT'', ustr ''go'')]
     (ustr ''cv'' @ ustr ''.TXT'') = Inr (ustr ''go'')"
proof -
  let ?fs = "[(ustr ''cv.PDF'', [65, 66]), (ustr ''cv.Docx'', 80 # ustr ''go''),
              (ustr ''cv.TXT'', ustr ''go'')]"
  have l: "unicode_lower sample_world = unicode_lower_sample" by (simp add: sample_world_def)
  have 1: "py_lower (unicode_lower sample_world) (ustr ''.PDF'') = ustr ''.pdf''"
    by (simp add: l py_lower_def lower_cp_def ustr_def)
  have 2: "py_lower (unicode_lower sample_world) (ustr ''.Docx'') = ustr ''.docx''"
    by (simp add: l py_lower_def lower_cp_def ustr_def)
  have 3: "py_lower (unicode_lower sample_world) (ustr ''.TXT'') = ustr ''.txt''"
    by (simp add: l py_lower_def lower_cp_def ustr_def)
  note a = extract_text_case_insensitive [of sample_world "ustr ''.PDF''" ?fs "ustr ''cv''",
      THEN conjunct1, rule_format, OF 1]
  note b = extract_text_case_insensitive [of sample_world "ustr ''.Docx''" ?fs "ustr ''cv''",
      THEN conjunct2, THEN conjunct1, rule_format, OF 2]
  note c = extract_text_case_insensitive [of sample_world "ustr ''.TXT''" ?fs "ustr ''cv''",
      THEN conjunct2, THEN conjunct2, rule_format, OF 3]
  have a': "extract_text_from_pdf sample_world ?fs (ustr ''cv'' @ ustr ''.PDF'') =
      Inr [65, 10, 66, 10]"
    by (simp add: extract_text_from_pdf_def try_except_def sample_world_def ustr_def)
  have b': "extract_text_from_docx sample_world ?fs (ustr ''cv'' @ ustr ''.Docx'') =
      Inr (ustr ''go'')"
    by (simp add: extract_text_from_docx_def try_except_def sample_world_def ustr_def)
  have c': "extract_text_from_txt sample_world ?fs (ustr ''cv'' @ ustr ''.TXT'') =
      Inr (ustr ''go'')"
    by (simp add: extract_text_from_txt_def try_except_def sample_world_def ustr_def)
  show ?thesis using a b c a' b' c' by (simp only:)
qed


section \<open>The route: claims\<close>

text \<open>
  The route catches no exception: when the uploads have been read and the library's
  vectorizer raises on the corpus, that exception leaves the route, and no page is
  rendered.
\<close>

lemma matcher_engine_exception:
  assumes "jd = Some t" "t \<noteq> []" "list_ex (\<lambda>f. filename f \<noteq> []) files"
    and "read_resumes w files [] [] fs = (Inr (names, texts), fs')"
    and "tfidf_cosine w
           (english_stop_words w \<union>
            set (map ustr [''skills'', ''experience'', ''candidate'', ''job'', ''responsibilities'']))
           (normalize_text (unicode_lower w) jd # texts) = Inl e"
  shows "matcher w jd files fs = (Inl e, fs')"
proof -
  have "files \<noteq> []" using assms(3) by auto
  then show ?thesis using assms by (simp add: matcher_def Let_def)
qed

text \<open>
  Claim C9. When the job description is missing (no such form field, or the empty
  string) the route answers with the error page that asks for a job description; when it
  is present but no upload has a filename (no upload at all, or only empty filenames) it
  answers with the error page that asks for a resume. The two messages differ. In both
  cases the file system is unchanged, and the answer is the same whatever the libraries
  would do: nothing is saved, read or scored.
\<close>

theorem matcher_validation_aborts:
  "(jd = None \<or> jd = Some [] \<longrightarrow>
      matcher w jd files fs =
        (Inr (ErrorPage ''Please paste a job description to begin matching.''), fs)) \<and>
   (jd = Some t \<and> t \<noteq> [] \<and> (files = [] \<or> (\<forall>f\<in>set files. filename f = [])) \<longrightarrow>
      matcher w jd files fs = (Inr (ErrorPage ''Please upload at least one resume file.''), fs)) \<and>
   ''Please paste a job description to begin matching.'' \<noteq>
     ''Please upload at least one resume file.''"
  by (auto simp: matcher_def list_ex_iff)

theorem matcher_validation_aborts_witness:
  "matcher sample_world None [\<lparr>filename = ustr ''a.txt'', content = [103, 111]\<rparr>] [] =
     (Inr (ErrorPage ''Please paste a job description to begin matching.''), []) \<and>
   matcher sample_world (Some []) [\<lparr>filename = ustr ''a.txt'', content = [103, 111]\<rparr>] [] =
     (Inr (ErrorPage ''Please paste a job description to begin matching.''), []) \<and>
   matcher sample_world (Some (ustr ''go'')) [] [] =
     (Inr (ErrorPage ''Please upload at least one resume file.''), []) \<and>
   matcher sample_world (Some (ustr ''go'')) [\<lparr>filename = [], content = [103, 111]\<rparr>] [] =
     (Inr (ErrorPage ''Please upload at least one resume file.''), [])"
proof -
  have g: "ustr ''go'' \<noteq> []" by (simp add: ustr_def)
  have n: "\<forall>f\<in>set [\<lparr>filename = [], content = [103, 111::nat]\<rparr>]. filename f = []" by simp
  note a = matcher_validation_aborts [where jd = None and w = sample_world and fs = "[]"
      and files = "[\<lparr>filename = ustr ''a.txt'', content = [103, 111]\<rparr>]",
      THEN conjunct1, rule_format, OF disjI1, OF refl]
  note b = matcher_validation_aborts [where jd = "Some []" and w = sample_world and fs = "[]"
      and files = "[\<lparr>filename = ustr ''a.txt'', content = [103, 111]\<rparr>]",
      THEN conjunct1, rule_format, OF disjI2, OF refl]
  note c = matcher_validation_aborts [where jd = "Some (ustr ''go'')" and t = "ustr ''go''"
      and w = sample_world and fs = "[]" and files = "[]",
      THEN conjunct2, THEN conjunct1, rule_format, OF conjI, OF refl, OF conjI, OF g, OF disjI1,
      OF refl]
  note d = matcher_validation_aborts [where jd = "Some (ustr ''go'')" and t = "ustr ''go''"
      and w = sample_world and fs = "[]"
      and files = "[\<lparr>filename = [], content = [103, 111]\<rparr>]",
      THEN conjunct2, THEN conjunct1, rule_format, OF conjI, OF refl, OF conjI, OF g, OF disjI2,
      OF n]
  show ?thesis using a b c d by (intro conjI)
qed

lemma build_results_names:
  "build_results w names i sims acc = Inr rs \<Longrightarrow>
   map name rs = map name acc @ take (length sims) (drop i names) \<and>
   length rs = length acc + length sims"
proof (induction sims arbitrary: i acc)
  case Nil
  then show ?case by simp
next
  case (Cons sim sims)
  have i: "i < length names" using Cons.prems by (auto simp: Let_def split: if_splits)
  let ?r = "\<lparr>name = names ! i, score = round_score w sim,
             tier_label = label (get_confidence_tier (round_score w sim)),
             tier_style = style (get_confidence_tier (round_score w sim))\<rparr>"
  have "build_results w names (Suc i) sims (acc @ [?r]) = Inr rs"
    using Cons.prems i by (simp add: Let_def)
  then have "map name rs = map name (acc @ [?r]) @ take (length sims) (drop (Suc i) names) \<and>
     length rs = length (acc @ [?r]) + length sims" by (rule Cons.IH)
  moreover have "drop i names = names ! i # drop (Suc i) names"
    using i by (simp add: Cons_nth_drop_Suc)
  ultimately show ?case by simp
qed

lemma sort_reverse_sorted: "sorted_wrt (\<lambda>a b. key b \<le> key a) (sort_reverse key xs)"
proof -
  have "sorted (map key (sort_key key (rev xs)))" by simp
  then have "sorted_wrt (\<lambda>a b. key a \<le> key b) (sort_key key (rev xs))"
    by (simp add: sorted_map)
  then show ?thesis by (simp add: sort_reverse_def sorted_wrt_rev)
qed

lemma sort_reverse_stable:
  "filter (\<lambda>x. key x = v) (sort_reverse key xs) = filter (\<lambda>x. key x = v) xs"
  by (simp add: sort_reverse_def rev_filter [symmetric] sort_key_stable)

lemma filter_snd_map:
  "filter (\<lambda>p. snd p = v) (map (\<lambda>r. (name r, score r)) rs) =
   map (\<lambda>r. (name r, score r)) (filter (\<lambda>r. score r = v) rs)"
  by (induction rs) auto

lemma sample_run:
  "matcher sample_world (Some (ustr ''Go dev''))
     [\<lparr>filename = ustr ''a.txt'', content = ustr ''Java''\<rparr>,
      \<lparr>filename = [], content = []\<rparr>,
      \<lparr>filename = ustr ''b.txt'', content = ustr ''go  DEV''\<rparr>,
      \<lparr>filename = ustr ''c.txt'', content = ustr ''Rust''\<rparr>] [] =
   (Inr (ResultsPage ''Analysis Complete. Top Matches:''
      [\<lparr>name = ustr ''b.txt'', score = 100, tier_label = ''Tier 1 (Excellent Match)'', tier_style = ''bg-success''\<rparr>,
       \<lparr>name = ustr ''a.txt'', score = 50, tier_label = ''Tier 3 (Average Fit)'', tier_style = ''bg-warning text-dark''\<rparr>,
       \<lparr>name = ustr ''c.txt'', score = 50, tier_label = ''Tier 3 (Average Fit)'', tier_style = ''bg-warning text-dark''\<rparr>]
      [(ustr ''b.txt'', 100), (ustr ''a.txt'', 50), (ustr ''c.txt'', 50)]),
    [(ustr ''uploads/c.txt'', ustr ''Rust''), (ustr ''uploads/b.txt'', ustr ''go  DEV''),
     (ustr ''uploads/a.txt'', ustr ''Java'')])"
  by (simp add: matcher_def world_eval norm_eval sort_reverse_def get_confidence_tier_def Let_def)

text \<open>
  Claim C4. When the route answers with results, the chart data (the full ranked list) is
  in descending order of score, the top results are its first five entries, and the sort
  is stable: there is a list of the scored resumes in upload order (its names are the
  filenames of the uploads, in their order) such that, for every score, the entries with
  that score appear in the ranked list in the same order as in that list.
\<close>

theorem ranking_sorted_stable:
  assumes "matcher w jd files fs = (Inr (ResultsPage msg top5 chart), fs')"
  shows "sorted_wrt (\<lambda>a b. snd b \<le> snd a) chart \<and>
         map (\<lambda>r. (name r, score r)) top5 = take 5 chart \<and>
         (\<exists>scored.
            map fst scored =
              take (length scored) (map filename (filter (\<lambda>f. filename f \<noteq> []) files)) \<and>
            (\<forall>v. filter (\<lambda>p. snd p = v) chart = filter (\<lambda>p. snd p = v) scored))"
proof -
  let ?pair = "\<lambda>r. (name r, score r)"
  from assms obtain names texts fs1 sims rs where
    rr: "read_resumes w files [] [] fs = (Inr (names, texts), fs1)" and
    br: "build_results w names 0 sims [] = Inr rs" and
    top5: "top5 = take 5 (sort_reverse score rs)" and
    chart: "chart = map ?pair (sort_reverse score rs)"
    by (auto simp: matcher_def Let_def split: if_splits prod.splits sum.splits)
  have names: "names = map filename (filter (\<lambda>f. filename f \<noteq> []) files)"
    using read_resumes_names [OF rr] by simp
  have rsn: "map name rs = take (length rs) names"
    using build_results_names [OF br] by simp
  have 1: "sorted_wrt (\<lambda>a b. snd b \<le> snd a) chart"
    using sort_reverse_sorted [of score rs] unfolding chart by (simp add: sorted_wrt_map)
  have 2: "map ?pair top5 = take 5 chart" unfolding top5 chart by (simp add: take_map)
  have 3: "map fst (map ?pair rs) = take (length (map ?pair rs)) names"
    using rsn by (simp add: comp_def)
  have 4: "\<forall>v. filter (\<lambda>p. snd p = v) chart = filter (\<lambda>p. snd p = v) (map ?pair rs)"
    unfolding chart by (simp add: filter_snd_map sort_reverse_stable)
  show ?thesis using 1 2 3 4 names by blast
qed

theorem ranking_sorted_stable_witness:
  "sorted_wrt (\<lambda>a b. snd b \<le> snd a)
     [(ustr ''b.txt'', 100::real), (ustr ''a.txt'', 50), (ustr ''c.txt'', 50)] \<and>
   map (\<lambda>r. (name r, score r))
     [\<lparr>name = ustr ''b.txt'', score = 100, tier_label = ''Tier 1 (Excellent Match)'', tier_style = ''bg-success''\<rparr>,
      \<lparr>name = ustr ''a.txt'', score = 50, tier_label = ''Tier 3 (Average Fit)'', tier_style = ''bg-warning text-dark''\<rparr>,
      \<lparr>name = ustr ''c.txt'', score = 50, tier_label = ''Tier 3 (Average Fit)'', tier_style = ''bg-warning text-dark''\<rparr>] =
     take 5 [(ustr ''b.txt'', 100), (ustr ''a.txt'', 50), (ustr ''c.txt'', 50)] \<and>
   (\<exists>scored.
      map fst scored =
        take (length scored) (map filename (filter (\<lambda>f. filename f \<noteq> [])
          [\<lparr>filename = ustr ''a.txt'', content = ustr ''Java''\<rparr>,
          \<lparr>filename = [], content = []\<rparr>,
          \<lparr>filename = ustr ''b.txt'', content = ustr ''go  DEV''\<rparr>,
          \<lparr>filename = ustr ''c.txt'', content = ustr ''Rust''\<rparr>])) \<and>
      (\<forall>v. filter (\<lambda>p. snd p = v) [(ustr ''b.txt'', 100::real), (ustr ''a.txt'', 50), (ustr ''c.txt'', 50)] =
           filter (\<lambda>p. snd p = v) scored))"
  using ranking_sorted_stable [OF sample_run] .


end
